theory Spec2Isabelle
  imports Main "HOL-Library.Multiset"
begin

section \<open>rq: command line parsing and the expression pipeline of \<^verbatim>\<open>src/main.cpp\<close>\<close>

subsection \<open>Data model\<close>

text \<open>
  \<^verbatim>\<open>struct ProgramOptions\<close>: the two flags and the list of expressions. The fields start
  as \<open>false\<close>, \<open>false\<close> and the empty vector (\<open>ProgramOptions_default\<close>).
\<close>

record ProgramOptions =
  "help" :: bool
  version :: bool
  expressions :: "string list"

definition ProgramOptions_default :: ProgramOptions where
  "ProgramOptions_default = \<lparr>help = False, version = False, expressions = []\<rparr>"

text \<open>The only exception the constructor throws is \<^verbatim>\<open>std::runtime_error\<close> with a message.\<close>

datatype error = runtime_error string

subsection \<open>The option scan of the constructor\<close>

text \<open>
  \<^verbatim>\<open>args.erase(it)\<close> on a vector: the element at index \<open>it\<close> is removed, the elements
  after it move down, and the iterator returned points at the same index.
\<close>

definition erase :: "'a list \<Rightarrow> nat \<Rightarrow> 'a list" where
  "erase args it = take it args @ drop (Suc it) args"

text \<open>
  The inner \<^verbatim>\<open>for (; argit != arg.end(); ++argit) switch (*argit)\<close> loop, started on the
  characters after the first one.
\<close>

fun scan_short :: "string \<Rightarrow> ProgramOptions \<Rightarrow> error + ProgramOptions" where
  "scan_short [] opts = Inr opts"
| "scan_short (c # cs) opts =
     (if c = CHR ''h'' then scan_short cs (opts\<lparr>help := True\<rparr>)
      else if c = CHR ''v'' then scan_short cs (opts\<lparr>version := True\<rparr>)
      else Inl (runtime_error (''invalid option -'' @ [c])))"

text \<open>
  One iteration of \<^verbatim>\<open>while (it != args.end())\<close>, entered with \<open>it\<close> inside the vector.
  The outcome is how the iteration leaves the loop body: \<^verbatim>\<open>continue\<close> (or falling off
  the end of the body), \<^verbatim>\<open>break\<close>, or a thrown exception.
\<close>

datatype scan_outcome =
    Continue "string list" nat ProgramOptions
  | Break "string list" nat ProgramOptions
  | Throw error

definition scan_body :: "string list \<Rightarrow> nat \<Rightarrow> ProgramOptions \<Rightarrow> scan_outcome" where
  "scan_body args it opts =
     (let arg = args ! it in
      if length arg = 0 then Continue args (Suc it) opts
      else if arg = ''--'' then Break (erase args it) it opts
      else if arg = ''--help'' then Continue (erase args it) it (opts\<lparr>help := True\<rparr>)
      else if arg = ''--version'' then Continue (erase args it) it (opts\<lparr>version := True\<rparr>)
      else if length arg > 1 \<and> arg ! 0 = CHR ''-'' then
        (case scan_short (tl arg) opts of
           Inl e \<Rightarrow> Throw e
         | Inr opts' \<Rightarrow> Continue (erase args it) it opts')
      else Continue args (Suc it) opts)"

text \<open>
  The loop itself. The iterator never moves past \<open>args.end()\<close>, so
  \<^verbatim>\<open>it != args.end()\<close> is \<open>it < length args\<close>. The result is the vector and
  the flags as they stand when the loop is left.
\<close>

function scan_loop ::
  "string list \<Rightarrow> nat \<Rightarrow> ProgramOptions \<Rightarrow> error + string list \<times> ProgramOptions" where
  "scan_loop args it opts =
     (if it < length args then
        (case scan_body args it opts of
           Continue args' it' opts' \<Rightarrow> scan_loop args' it' opts'
         | Break args' it' opts' \<Rightarrow> Inr (args', opts')
         | Throw e \<Rightarrow> Inl e)
      else Inr (args, opts))"
  by pat_completeness auto
termination
  by (relation "measure (\<lambda>(args, it, opts). length args - it)")
     (auto simp: scan_body_def erase_def Let_def split: if_splits sum.splits)

declare scan_loop.simps [simp del]

text \<open>
  The constructor after the vector \<open>args\<close> has been built: scan from \<open>args.begin()\<close>,
  then \<^verbatim>\<open>expressions = args\<close>.
\<close>

definition parse_args :: "string list \<Rightarrow> error + ProgramOptions" where
  "parse_args args =
     (case scan_loop args 0 ProgramOptions_default of
        Inl e \<Rightarrow> Inl e
      | Inr (args', opts) \<Rightarrow> Inr (opts\<lparr>expressions := args'\<rparr>))"

text \<open>
  \<^verbatim>\<open>ProgramOptions::ProgramOptions(int argc, char** argv)\<close>. \<open>argv\<close> is the list of the
  process arguments, \<open>argv[0]\<close> first; the vector \<open>args(argv + 1, argv + argc)\<close> holds
  the \<open>argc - 1\<close> entries after \<open>argv[0]\<close>.
\<close>

definition ProgramOptions_ctor :: "int \<Rightarrow> string list \<Rightarrow> error + ProgramOptions" where
  "ProgramOptions_ctor argc argv =
     (if argc < 1 then Inl (runtime_error ''Really?'')
      else parse_args (take (nat (argc - 1)) (drop 1 argv)))"

subsection \<open>Collaborators of \<^verbatim>\<open>main\<close> that live outside \<^verbatim>\<open>main.cpp\<close>\<close>

text \<open>
  \<^verbatim>\<open>main\<close> uses the class \<^verbatim>\<open>MRuby\<close> (\<^verbatim>\<open>mruby++.h\<close>), the function
  \<^verbatim>\<open>ExpressionWrapper::wrap\<close> (\<^verbatim>\<open>expressionwrapper.h\<close>) and the macros
  \<^verbatim>\<open>PROJECT_VERSION\<close> (\<^verbatim>\<open>config.h\<close>) and \<^verbatim>\<open>MRUBY_VERSION\<close>. None of them is defined in
  \<^verbatim>\<open>main.cpp\<close>, so they are parameters of the model: \<open>'r\<close> is the state of the
  interpreter, \<open>rb_new\<close> the state a freshly constructed \<^verbatim>\<open>MRuby rb\<close> has,
  \<open>rb_eval\<close> the method \<^verbatim>\<open>rb.eval\<close> (its \<^verbatim>\<open>bool\<close> result and the state it leaves),
  \<open>rb_print_error\<close> the text \<^verbatim>\<open>rb.print_error()\<close> prints in a given state.
\<close>

record 'r collaborators =
  PROJECT_VERSION :: string
  MRUBY_VERSION :: string
  wrap :: "string \<Rightarrow> string"
  rb_new :: 'r
  rb_eval :: "string \<Rightarrow> 'r \<Rightarrow> bool \<times> 'r"
  rb_print_error :: "'r \<Rightarrow> string"

subsection \<open>What \<^verbatim>\<open>main\<close> does, as a trace\<close>

text \<open>
  The effects of \<^verbatim>\<open>main\<close>, in program order: one \<open>Cout\<close> or \<open>Cerr\<close> event for each
  output statement on \<^verbatim>\<open>std::cout\<close> or \<^verbatim>\<open>std::cerr\<close> with the text it writes, \<open>Eval\<close>
  for each call of \<^verbatim>\<open>rb.eval\<close> with the statement passed, \<open>PrintError\<close> for each call
  of \<^verbatim>\<open>rb.print_error()\<close> with the text the interpreter prints. Whatever the interpreter
  reads or writes while it evaluates a statement is part of that \<open>Eval\<close> event.
\<close>

datatype event = Cout string | Cerr string | Eval string | PrintError string

definition endl :: string where
  "endl = [CHR 0x0A]"

definition EXIT_SUCCESS :: int where
  "EXIT_SUCCESS = 0"

definition EXIT_FAILURE :: int where
  "EXIT_FAILURE = 1"

text \<open>\<^verbatim>\<open>operator<<\<close> on a \<^verbatim>\<open>size_t\<close>: the decimal digits.\<close>

fun to_decimal :: "nat \<Rightarrow> string" where
  "to_decimal n =
     (if n < 10 then [''0123456789'' ! n]
      else to_decimal (n div 10) @ [''0123456789'' ! (n mod 10)])"

declare to_decimal.simps [simp del]

definition print_version :: "'r collaborators \<Rightarrow> (string \<Rightarrow> event) \<Rightarrow> event list" where
  "print_version env stream =
     [stream (''rq '' @ PROJECT_VERSION env @ '' (mruby '' @ MRUBY_VERSION env @ '')'' @ endl)]"

definition print_usage :: "(string \<Rightarrow> event) \<Rightarrow> event list" where
  "print_usage stream =
     [stream (''Usage: rq [options] [--] [EXPRESSION...]'' @ endl @
              ''  -v              print the version number'' @ endl @
              ''  -h              show this message'' @ endl)]"

definition read_stmt :: string where
  "read_stmt = ''item = JSON.parse(STDIN.read)''"

definition print_stmt :: string where
  "print_stmt = ''puts JSON.generate(item, pretty_print: true, indent_width: 2)''"

text \<open>
  The loop \<^verbatim>\<open>for (const auto& expr : opts.expressions)\<close>. The result is \<open>False\<close> when
  the loop was left by \<^verbatim>\<open>return EXIT_FAILURE\<close>, with the interpreter state and the
  events of the loop.
\<close>

fun run_expressions ::
  "'r collaborators \<Rightarrow> string list \<Rightarrow> 'r \<Rightarrow> bool \<times> 'r \<times> event list" where
  "run_expressions env [] rb = (True, rb, [])"
| "run_expressions env (expr # rest) rb =
     (let wrapped_expr = wrap env expr;
          (ok, rb') = rb_eval env wrapped_expr rb;
          tr = [Cout (''----> '' @ wrapped_expr @ endl), Eval wrapped_expr]
      in if \<not> ok then
           (False, rb',
            tr @ [Cerr (''rq: expression '' @ expr @ '' failed to run:'' @ endl),
                  PrintError (rb_print_error env rb')])
         else
           (case run_expressions env rest rb' of
              (done, rb'', tr') \<Rightarrow> (done, rb'', tr @ tr')))"

text \<open>
  \<^verbatim>\<open>int main(int argc, char** argv)\<close>: the exit status and the trace. The \<^verbatim>\<open>catch\<close>
  clause handles the \<^verbatim>\<open>std::runtime_error\<close> of the constructor.
\<close>

definition main :: "'r collaborators \<Rightarrow> int \<Rightarrow> string list \<Rightarrow> int \<times> event list" where
  "main env argc argv =
     (case ProgramOptions_ctor argc argv of
        Inl (runtime_error what) \<Rightarrow>
          (EXIT_FAILURE, Cerr (''rq: '' @ what @ endl @ endl) # print_usage Cerr)
      | Inr opts \<Rightarrow>
          if help opts then (EXIT_SUCCESS, print_usage Cout)
          else if version opts then (EXIT_SUCCESS, print_version env Cout)
          else
            (let tr0 = [Cout (''reading from stdin'' @ endl), Eval read_stmt];
                 (ok0, rb0) = rb_eval env read_stmt (rb_new env)
             in if \<not> ok0 then
                  (EXIT_FAILURE,
                   tr0 @ [Cerr (''rq: read from stdin failed:'' @ endl),
                          PrintError (rb_print_error env rb0)])
                else
                  (let tr1 = tr0 @ [Cout (''running '' @ to_decimal (length (expressions opts))
                                          @ '' expressions'' @ endl)]
                   in case run_expressions env (expressions opts) rb0 of
                        (False, rb1, tr2) \<Rightarrow> (EXIT_FAILURE, tr1 @ tr2)
                      | (True, rb1, tr2) \<Rightarrow>
                          (let tr3 = tr1 @ tr2 @ [Cout (''printing item'' @ endl), Eval print_stmt];
                               (ok2, rb2) = rb_eval env print_stmt rb1
                           in if \<not> ok2 then
                                (EXIT_FAILURE,
                                 tr3 @ [Cerr (''rq: printing item failed'' @ endl),
                                        PrintError (rb_print_error env rb2)])
                              else (EXIT_SUCCESS, tr3)))))"

subsection \<open>Notions used to state the properties\<close>

text \<open>
  The scan seen from the iterator: the tokens from \<open>it\<close> on and the flags, giving the
  tokens that stay in the vector from \<open>it\<close> on. \<open>scan_loop_tokens\<close> below shows that
  the loop on the vector computes exactly this.
\<close>

fun scan_tokens :: "string list \<Rightarrow> ProgramOptions \<Rightarrow> error + string list \<times> ProgramOptions" where
  "scan_tokens [] opts = Inr ([], opts)"
| "scan_tokens (arg # rest) opts =
     (if arg = [] then
        (case scan_tokens rest opts of
           Inl e \<Rightarrow> Inl e
         | Inr (kept, opts') \<Rightarrow> Inr (arg # kept, opts'))
      else if arg = ''--'' then Inr (rest, opts)
      else if arg = ''--help'' then scan_tokens rest (opts\<lparr>help := True\<rparr>)
      else if arg = ''--version'' then scan_tokens rest (opts\<lparr>version := True\<rparr>)
      else if length arg > 1 \<and> arg ! 0 = CHR ''-'' then
        (case scan_short (tl arg) opts of
           Inl e \<Rightarrow> Inl e
         | Inr opts' \<Rightarrow> scan_tokens rest opts')
      else
        (case scan_tokens rest opts of
           Inl e \<Rightarrow> Inl e
         | Inr (kept, opts') \<Rightarrow> Inr (arg # kept, opts')))"

text \<open>The guard of the short option branch: longer than one character, first one \<open>-\<close>.\<close>

definition dashed :: "string \<Rightarrow> bool" where
  "dashed arg = (length arg > 1 \<and> arg ! 0 = CHR ''-'')"

text \<open>A character the \<^verbatim>\<open>switch\<close> sends to \<^verbatim>\<open>default\<close>.\<close>

definition invalid_char :: "char \<Rightarrow> bool" where
  "invalid_char c = (c \<noteq> CHR ''h'' \<and> c \<noteq> CHR ''v'')"

text \<open>
  Tokens by what the scan does with them when it reaches them: a positional token stays
  in the vector, a well-formed flag is \<open>--help\<close>, \<open>--version\<close> or a \<open>-\<close> followed by
  \<open>h\<close> and \<open>v\<close> characters only, and a token sets a flag when it is the long option or
  a short option token with that letter.
\<close>

definition positional :: "string \<Rightarrow> bool" where
  "positional arg = (\<not> dashed arg)"

definition well_formed_flag :: "string \<Rightarrow> bool" where
  "well_formed_flag arg =
     (arg = ''--help'' \<or> arg = ''--version'' \<or>
      (dashed arg \<and> list_all (\<lambda>c. \<not> invalid_char c) (tl arg)))"

definition sets_help :: "string \<Rightarrow> bool" where
  "sets_help arg =
     (arg = ''--help'' \<or>
      (arg \<noteq> ''--'' \<and> arg \<noteq> ''--version'' \<and> dashed arg \<and> CHR ''h'' \<in> set (tl arg)))"

definition sets_version :: "string \<Rightarrow> bool" where
  "sets_version arg =
     (arg = ''--version'' \<or>
      (arg \<noteq> ''--'' \<and> arg \<noteq> ''--help'' \<and> dashed arg \<and> CHR ''v'' \<in> set (tl arg)))"

text \<open>The tokens the scan looks at: those before the first \<open>--\<close>.\<close>

definition scanned :: "string list \<Rightarrow> string list" where
  "scanned args = takeWhile (\<lambda>arg. arg \<noteq> ''--'') args"

text \<open>
  The pipeline as the specification describes its result: the index of the first
  expression whose evaluation fails, if there is one, and the state of the interpreter
  after a list of expressions has been evaluated in order.
\<close>

fun first_failure :: "'r collaborators \<Rightarrow> string list \<Rightarrow> 'r \<Rightarrow> nat option" where
  "first_failure env [] rb = None"
| "first_failure env (expr # rest) rb =
     (case rb_eval env (wrap env expr) rb of
        (True, rb') \<Rightarrow> map_option Suc (first_failure env rest rb')
      | (False, rb') \<Rightarrow> Some 0)"

fun rb_after :: "'r collaborators \<Rightarrow> string list \<Rightarrow> 'r \<Rightarrow> 'r" where
  "rb_after env [] rb = rb"
| "rb_after env (expr # rest) rb = rb_after env rest (snd (rb_eval env (wrap env expr) rb))"

text \<open>Projections of a trace: the statements evaluated, and what goes to each stream.\<close>

fun evals :: "event list \<Rightarrow> string list" where
  "evals [] = []"
| "evals (Eval s # tr) = s # evals tr"
| "evals (_ # tr) = evals tr"

fun couts :: "event list \<Rightarrow> string list" where
  "couts [] = []"
| "couts (Cout s # tr) = s # couts tr"
| "couts (_ # tr) = couts tr"

fun diagnostics :: "event list \<Rightarrow> event list" where
  "diagnostics [] = []"
| "diagnostics (Cerr s # tr) = Cerr s # diagnostics tr"
| "diagnostics (PrintError s # tr) = PrintError s # diagnostics tr"
| "diagnostics (_ # tr) = diagnostics tr"

text \<open>The events of the loop for one expression that succeeds.\<close>

definition expr_events :: "'r collaborators \<Rightarrow> string \<Rightarrow> event list" where
  "expr_events env expr =
     [Cout (''----> '' @ wrap env expr @ endl), Eval (wrap env expr)]"

text \<open>
  A stand-in interpreter for concrete runs: it has no state, a statement fails exactly
  when it is in the list \<open>failing\<close>, and the wrapper puts \<open>item = \<close> in front of the
  expression.
\<close>

definition fake_env :: "string list \<Rightarrow> unit collaborators" where
  "fake_env failing =
     \<lparr>PROJECT_VERSION = ''0.0.0'', MRUBY_VERSION = ''0.0.0'',
      wrap = (\<lambda>expr. ''item = '' @ expr),
      rb_new = (),
      rb_eval = (\<lambda>stmt rb. (stmt \<notin> set failing, rb)),
      rb_print_error = (\<lambda>rb. ''error'')\<rparr>"

section \<open>The scan loop and its token-wise form\<close>

lemma erase_drop: "it < length args \<Longrightarrow> drop it (erase args it) = drop (Suc it) args"
  by (simp add: erase_def)

lemma erase_take: "it < length args \<Longrightarrow> take it (erase args it) = take it args"
  by (simp add: erase_def)

lemma scan_loop_tokens:
  "it \<le> length args \<Longrightarrow>
   scan_loop args it opts =
     (case scan_tokens (drop it args) opts of
        Inl e \<Rightarrow> Inl e
      | Inr (kept, opts') \<Rightarrow> Inr (take it args @ kept, opts'))"
proof (induction args it opts rule: scan_loop.induct)
  case (1 args it opts)
  show ?case
  proof (cases "it < length args")
    case False
    with "1.prems" show ?thesis by (simp add: scan_loop.simps)
  next
    case True
    then have d: "drop it args = (args ! it) # drop (Suc it) args"
      by (simp add: Cons_nth_drop_Suc)
    have t: "take (Suc it) args = take it args @ [args ! it]"
      using True by (simp add: take_Suc_conv_app_nth)
    show ?thesis
    proof (cases "scan_body args it opts")
      case (Continue args' it' opts')
      have le: "it' \<le> length args'"
        using Continue True
        by (auto simp: scan_body_def erase_def Let_def split: if_splits sum.splits)
      have ih: "scan_loop args' it' opts' =
        (case scan_tokens (drop it' args') opts' of
          Inl e \<Rightarrow> Inl e
        | Inr (kept, opts'') \<Rightarrow> Inr (take it' args' @ kept, opts''))"
        using "1.IH"[OF True Continue le] .
      have "scan_loop args it opts = scan_loop args' it' opts'"
        using True Continue by (simp add: scan_loop.simps[of args it])
      with ih Continue True d t show ?thesis
        by (auto simp: scan_body_def Let_def erase_drop erase_take
                 split: if_splits sum.splits prod.splits)
    next
      case (Break args' it' opts')
      with True d show ?thesis
        by (auto simp: scan_loop.simps[of args it] scan_body_def Let_def erase_def
                 split: if_splits sum.splits)
    next
      case (Throw e)
      with True d show ?thesis
        by (auto simp: scan_loop.simps[of args it] scan_body_def Let_def
                 split: if_splits sum.splits)
    qed
  qed
qed

lemma parse_args_tokens:
  "parse_args args =
     (case scan_tokens args ProgramOptions_default of
        Inl e \<Rightarrow> Inl e
      | Inr (kept, opts) \<Rightarrow> Inr (opts\<lparr>expressions := kept\<rparr>))"
  by (simp add: parse_args_def scan_loop_tokens split: sum.splits prod.splits)

lemma ctor_parse_args:
  "ProgramOptions_ctor (1 + int (length args)) (arg0 # args) = parse_args args"
  by (simp add: ProgramOptions_ctor_def)

lemma scan_tokens_append:
  "''--'' \<notin> set pre \<Longrightarrow>
   scan_tokens (pre @ rest) opts =
     (case scan_tokens pre opts of
        Inl e \<Rightarrow> Inl e
      | Inr (kept, opts') \<Rightarrow>
          (case scan_tokens rest opts' of
             Inl e \<Rightarrow> Inl e
           | Inr (kept', opts'') \<Rightarrow> Inr (kept @ kept', opts'')))"
proof (induction pre arbitrary: opts)
  case Nil
  show ?case by (simp split: sum.splits prod.splits)
next
  case (Cons arg pre)
  then have ih: "\<And>opts. scan_tokens (pre @ rest) opts =
     (case scan_tokens pre opts of
        Inl e \<Rightarrow> Inl e
      | Inr (kept, opts') \<Rightarrow>
          (case scan_tokens rest opts' of
             Inl e \<Rightarrow> Inl e
           | Inr (kept', opts'') \<Rightarrow> Inr (kept @ kept', opts'')))"
    and ne: "arg \<noteq> ''--''" by auto
  show ?case
    using ne by (simp add: ih split: sum.splits prod.splits)
qed

subsection \<open>Flags, short options and positional tokens\<close>

lemma scan_short_find:
  "scan_short cs opts =
     (case find invalid_char cs of
        Some c \<Rightarrow> Inl (runtime_error (''invalid option -'' @ [c]))
      | None \<Rightarrow> Inr (opts\<lparr>help := help opts \<or> CHR ''h'' \<in> set cs,
                          version := version opts \<or> CHR ''v'' \<in> set cs\<rparr>))"
proof (induction cs arbitrary: opts)
  case Nil
  show ?case by simp
next
  case (Cons c cs)
  show ?case
    by (auto simp: Cons.IH invalid_char_def split: option.splits)
qed

lemma scan_short_flags:
  "scan_short cs opts = Inr opts' \<Longrightarrow>
   help opts' = (help opts \<or> CHR ''h'' \<in> set cs) \<and>
   version opts' = (version opts \<or> CHR ''v'' \<in> set cs) \<and>
   expressions opts' = expressions opts"
  by (auto simp: scan_short_find split: option.splits)

lemma scan_tokens_flags:
  "scan_tokens args opts = Inr (kept, opts') \<Longrightarrow>
   help opts' = (help opts \<or> (\<exists>arg\<in>set (scanned args). sets_help arg)) \<and>
   version opts' = (version opts \<or> (\<exists>arg\<in>set (scanned args). sets_version arg)) \<and>
   expressions opts' = expressions opts"
proof (induction args arbitrary: opts kept)
  case Nil
  then show ?case by (simp add: scanned_def)
next
  case (Cons arg rest)
  consider (empty) "arg = []" | (dd) "arg = ''--''" | (lh) "arg = ''--help''"
    | (lv) "arg = ''--version''"
    | (short) "arg \<noteq> []" "arg \<noteq> ''--''" "arg \<noteq> ''--help''" "arg \<noteq> ''--version''" "dashed arg"
    | (pos) "arg \<noteq> []" "\<not> dashed arg"
    by (auto simp: dashed_def)
  then show ?case
  proof cases
    case empty
    with Cons.prems obtain kept' where "scan_tokens rest opts = Inr (kept', opts')"
      by (auto split: sum.splits prod.splits)
    from Cons.IH[OF this] empty show ?thesis
      by (simp add: scanned_def sets_help_def sets_version_def dashed_def)
  next
    case dd
    with Cons.prems show ?thesis by (simp add: scanned_def)
  next
    case lh
    with Cons.prems have "scan_tokens rest (opts\<lparr>help := True\<rparr>) = Inr (kept, opts')"
      by simp
    from Cons.IH[OF this] lh show ?thesis
      by (simp add: scanned_def sets_help_def sets_version_def dashed_def)
  next
    case lv
    with Cons.prems have "scan_tokens rest (opts\<lparr>version := True\<rparr>) = Inr (kept, opts')"
      by simp
    from Cons.IH[OF this] lv show ?thesis
      by (simp add: scanned_def sets_help_def sets_version_def dashed_def)
  next
    case short
    with Cons.prems obtain opts1 where s: "scan_short (tl arg) opts = Inr opts1"
      and r: "scan_tokens rest opts1 = Inr (kept, opts')"
      by (auto simp: dashed_def split: sum.splits)
    have sh: "sets_help arg = (CHR ''h'' \<in> set (tl arg))"
      and sv: "sets_version arg = (CHR ''v'' \<in> set (tl arg))"
      using short by (simp_all add: sets_help_def sets_version_def)
    have sc: "scanned (arg # rest) = arg # scanned rest"
      using short by (simp add: scanned_def)
    from Cons.IH[OF r] scan_short_flags[OF s] show ?thesis
      unfolding sc by (simp add: sh sv disj_assoc)
  next
    case pos
    with Cons.prems obtain kept' where "scan_tokens rest opts = Inr (kept', opts')"
      by (auto simp: dashed_def split: sum.splits prod.splits if_splits)
    have sh: "\<not> sets_help arg" and sv: "\<not> sets_version arg"
      using pos by (auto simp: sets_help_def sets_version_def dashed_def)
    have sc: "scanned (arg # rest) = arg # scanned rest"
      using pos by (auto simp: scanned_def dashed_def)
    from Cons.IH[OF \<open>scan_tokens rest opts = Inr (kept', opts')\<close>] show ?thesis
      unfolding sc by (simp add: sh sv)
  qed
qed

lemma parse_args_flags:
  assumes "parse_args args = Inr result"
  shows "help result = (\<exists>arg\<in>set (scanned args). sets_help arg)"
    and "version result = (\<exists>arg\<in>set (scanned args). sets_version arg)"
proof -
  from assms obtain kept opts1 where s: "scan_tokens args ProgramOptions_default = Inr (kept, opts1)"
    and r: "result = opts1\<lparr>expressions := kept\<rparr>"
    by (auto simp: parse_args_tokens split: sum.splits prod.splits)
  from scan_tokens_flags[OF s] r
  show "help result = (\<exists>arg\<in>set (scanned args). sets_help arg)"
    and "version result = (\<exists>arg\<in>set (scanned args). sets_version arg)"
    by (simp_all add: ProgramOptions_default_def)
qed

lemma scan_body_flags:
  "scan_body args it opts = Continue args' it' opts' \<or>
   scan_body args it opts = Break args' it' opts' \<Longrightarrow>
   (help opts \<longrightarrow> help opts') \<and> (version opts \<longrightarrow> version opts')"
  by (auto simp: scan_body_def Let_def dest: scan_short_flags split: if_splits sum.splits)

lemma scan_body_dashed:
  assumes "dashed arg" "arg \<noteq> ''--''" "arg \<noteq> ''--help''" "arg \<noteq> ''--version''"
    and "args ! it = arg"
  shows "scan_body args it opts =
     (case find invalid_char (tl arg) of
        Some c \<Rightarrow> Throw (runtime_error (''invalid option -'' @ [c]))
      | None \<Rightarrow> Continue (erase args it) it
                 (opts\<lparr>help := help opts \<or> CHR ''h'' \<in> set (tl arg),
                       version := version opts \<or> CHR ''v'' \<in> set (tl arg)\<rparr>))"
proof -
  from assms(1) have ne: "length arg \<noteq> 0" and g: "length arg > 1 \<and> arg ! 0 = CHR ''-''"
    by (auto simp: dashed_def)
  show ?thesis
    using assms(2-5) ne g
    by (simp add: scan_body_def Let_def scan_short_find split: option.splits)
qed

lemma scan_tokens_dashed:
  assumes "dashed arg" "arg \<noteq> ''--''" "arg \<noteq> ''--help''" "arg \<noteq> ''--version''"
  shows "scan_tokens (arg # rest) opts =
     (case find invalid_char (tl arg) of
        Some c \<Rightarrow> Inl (runtime_error (''invalid option -'' @ [c]))
      | None \<Rightarrow> scan_tokens rest
                 (opts\<lparr>help := help opts \<or> CHR ''h'' \<in> set (tl arg),
                       version := version opts \<or> CHR ''v'' \<in> set (tl arg)\<rparr>))"
proof -
  from assms(1) have ne: "arg \<noteq> []" and g: "length arg > 1 \<and> arg ! 0 = CHR ''-''"
    by (auto simp: dashed_def)
  show ?thesis
    using assms(2-4) ne g
    by (simp add: scan_short_find split: option.splits)
qed

lemma long_option_invalid:
  assumes "dashed arg" "arg ! 1 = CHR ''-''"
  shows "find invalid_char (tl arg) = Some (CHR ''-'')"
proof -
  from assms(1) obtain a b cs where "arg = a # b # cs"
    by (cases arg; cases "tl arg") (auto simp: dashed_def)
  with assms(2) show ?thesis by (simp add: invalid_char_def)
qed

lemma parse_args_dashed:
  assumes "dashed arg" and "arg \<noteq> ''--''" and "arg \<noteq> ''--help''" and "arg \<noteq> ''--version''"
    and "''--'' \<notin> set pre" and "parse_args pre = Inr before"
  shows "case find invalid_char (tl arg) of
          Some c \<Rightarrow> parse_args (pre @ arg # post) =
                      Inl (runtime_error (''invalid option -'' @ [c]))
        | None \<Rightarrow> (\<forall>result. parse_args (pre @ arg # post) = Inr result \<longrightarrow>
                      (CHR ''h'' \<in> set (tl arg) \<longrightarrow> help result) \<and>
                      (CHR ''v'' \<in> set (tl arg) \<longrightarrow> version result))"
proof -
  from assms(6) obtain kept opts1 where s: "scan_tokens pre ProgramOptions_default = Inr (kept, opts1)"
    by (auto simp: parse_args_tokens split: sum.splits prod.splits)
  have ap: "scan_tokens (pre @ arg # post) ProgramOptions_default =
      (case scan_tokens (arg # post) opts1 of
         Inl e \<Rightarrow> Inl e
       | Inr (kept', opts'') \<Rightarrow> Inr (kept @ kept', opts''))"
    using assms(5) by (simp add: scan_tokens_append s)
  show ?thesis
  proof (cases "find invalid_char (tl arg)")
    case (Some c)
    have "scan_tokens (arg # post) opts1 = Inl (runtime_error (''invalid option -'' @ [c]))"
      by (simp only: scan_tokens_dashed[OF assms(1-4)] Some option.case)
    then have "parse_args (pre @ arg # post) = Inl (runtime_error (''invalid option -'' @ [c]))"
      by (simp only: parse_args_tokens ap sum.case)
    with Some show ?thesis by simp
  next
    case None
    have "(CHR ''h'' \<in> set (tl arg) \<longrightarrow> help result) \<and>
          (CHR ''v'' \<in> set (tl arg) \<longrightarrow> version result)"
      if p: "parse_args (pre @ arg # post) = Inr result" for result
    proof -
      have sh: "sets_help arg = (CHR ''h'' \<in> set (tl arg))"
        and sv: "sets_version arg = (CHR ''v'' \<in> set (tl arg))"
        using assms(1-4) by (simp_all add: sets_help_def sets_version_def)
      have "arg \<in> set (scanned (pre @ arg # post))"
        using assms(2,5) by (auto simp: scanned_def takeWhile_append)
      with parse_args_flags[OF p] sh sv
      show ?thesis by auto
    qed
    with None show ?thesis by simp
  qed
qed

lemma well_formed_not_positional: "well_formed_flag arg \<Longrightarrow> \<not> positional arg"
  by (auto simp: well_formed_flag_def positional_def dashed_def)

lemma well_formed_sets: "well_formed_flag arg \<Longrightarrow> sets_help arg \<or> sets_version arg"
proof -
  assume w: "well_formed_flag arg"
  show ?thesis
  proof (cases "arg = ''--help'' \<or> arg = ''--version''")
    case True
    then show ?thesis by (auto simp: sets_help_def sets_version_def)
  next
    case False
    with w have d: "dashed arg" and a: "list_all (\<lambda>c. \<not> invalid_char c) (tl arg)"
      by (auto simp: well_formed_flag_def)
    from d obtain c cs where tl: "tl arg = c # cs"
      by (cases arg; cases "tl arg") (auto simp: dashed_def)
    with a have c: "c = CHR ''h'' \<or> c = CHR ''v''" by (simp add: invalid_char_def)
    have nd: "arg \<noteq> ''--''" using tl c by auto
    from c tl d nd False show ?thesis
      by (auto simp: sets_help_def sets_version_def)
  qed
qed

lemma scan_tokens_well_formed:
  "\<forall>arg\<in>set args. well_formed_flag arg \<or> positional arg \<Longrightarrow>
   \<exists>opts'. scan_tokens args opts = Inr (filter positional args, opts')"
proof (induction args arbitrary: opts)
  case Nil
  show ?case by simp
next
  case (Cons arg rest)
  then have ih: "\<And>opts. \<exists>opts'. scan_tokens rest opts = Inr (filter positional rest, opts')"
    and a: "well_formed_flag arg \<or> positional arg" by auto
  from a show ?case
  proof
    assume p: "positional arg"
    then have nd: "arg \<noteq> ''--''" "arg \<noteq> ''--help''" "arg \<noteq> ''--version''"
      by (auto simp: positional_def dashed_def)
    from ih[of opts] obtain opts' where "scan_tokens rest opts = Inr (filter positional rest, opts')" ..
    moreover have "\<not> (1 < length arg \<and> arg ! 0 = CHR ''-'')"
      using p by (simp add: positional_def dashed_def)
    ultimately show ?thesis
      using p nd by auto
  next
    assume w: "well_formed_flag arg"
    then have np: "\<not> positional arg" by (rule well_formed_not_positional)
    show ?thesis
    proof (cases "arg = ''--help'' \<or> arg = ''--version''")
      case True
      then show ?thesis using ih np by auto
    next
      case False
      with w have d: "dashed arg" and al: "list_all (\<lambda>c. \<not> invalid_char c) (tl arg)"
        by (auto simp: well_formed_flag_def)
      from al have f: "find invalid_char (tl arg) = None"
        by (simp add: find_None_iff list_all_iff)
      from d al have nd: "arg \<noteq> ''--''"
        by (auto simp: invalid_char_def)
      from d have ne: "arg \<noteq> []" by (auto simp: dashed_def)
      obtain opts1 where s: "scan_short (tl arg) opts = Inr opts1"
        using f by (simp add: scan_short_find)
      from ih[of opts1] obtain opts' where
        "scan_tokens rest opts1 = Inr (filter positional rest, opts')" ..
      with s False nd ne d np show ?thesis
        by (simp add: dashed_def)
    qed
  qed
qed

lemma scan_tokens_empty_error:
  "scan_tokens (pre @ post) opts = Inl e \<Longrightarrow> scan_tokens (pre @ [] # post) opts = Inl e"
proof (induction pre arbitrary: opts)
  case Nil
  then show ?case by simp
next
  case (Cons arg pre)
  from Cons.prems show ?case
    by (auto simp: Cons.IH split: if_splits sum.splits prod.splits)
qed

lemma scan_tokens_empty_kept:
  "scan_tokens (pre @ post) opts = Inr (kept, opts') \<Longrightarrow>
   \<exists>k\<le>length kept. scan_tokens (pre @ [] # post) opts = Inr (take k kept @ [] # drop k kept, opts')"
proof (induction pre arbitrary: opts kept)
  case Nil
  then have "scan_tokens ([] @ [] # post) opts = Inr (take 0 kept @ [] # drop 0 kept, opts')"
    by simp
  then show ?case by blast
next
  case (Cons arg pre)
  consider (dd) "arg = ''--''"
    | (keep) "arg \<noteq> ''--''" "arg = [] \<or> \<not> dashed arg"
    | (lh) "arg = ''--help''" | (lv) "arg = ''--version''"
    | (short) "arg \<noteq> []" "arg \<noteq> ''--''" "arg \<noteq> ''--help''" "arg \<noteq> ''--version''" "dashed arg"
    by (auto simp: dashed_def)
  then show ?case
  proof cases
    case dd
    with Cons.prems have k: "kept = pre @ post" and o: "opts' = opts" by simp_all
    have "scan_tokens ((arg # pre) @ [] # post) opts =
        Inr (take (length pre) kept @ [] # drop (length pre) kept, opts')"
      using dd k o by simp
    moreover have "length pre \<le> length kept" using k by simp
    ultimately show ?thesis by blast
  next
    case keep
    then have g: "arg = [] \<or> \<not> (1 < length arg \<and> arg ! 0 = CHR ''-'')"
      and n: "arg \<noteq> ''--help''" "arg \<noteq> ''--version''"
      by (auto simp: dashed_def)
    have step: "scan_tokens (arg # rest) opts =
        (case scan_tokens rest opts of
           Inl e \<Rightarrow> Inl e
         | Inr (kept, opts') \<Rightarrow> Inr (arg # kept, opts'))" for rest
      using keep(1) g n by auto
    from Cons.prems have "scan_tokens (arg # pre @ post) opts = Inr (kept, opts')"
      by (simp only: append_Cons)
    then obtain kept0 where r: "scan_tokens (pre @ post) opts = Inr (kept0, opts')"
      and k: "kept = arg # kept0"
      unfolding step by (auto split: sum.splits prod.splits)
    from Cons.IH[OF r] obtain j where j: "j \<le> length kept0"
      and e: "scan_tokens (pre @ [] # post) opts = Inr (take j kept0 @ [] # drop j kept0, opts')"
      by blast
    have "scan_tokens ((arg # pre) @ [] # post) opts =
        Inr (take (Suc j) kept @ [] # drop (Suc j) kept, opts')"
      using e k by (simp add: step del: scan_tokens.simps)
    moreover have "Suc j \<le> length kept" using j k by simp
    ultimately show ?thesis by blast
  next
    case lh
    with Cons.prems have "scan_tokens (pre @ post) (opts\<lparr>help := True\<rparr>) = Inr (kept, opts')"
      by simp
    from Cons.IH[OF this] lh show ?thesis by simp
  next
    case lv
    with Cons.prems have "scan_tokens (pre @ post) (opts\<lparr>version := True\<rparr>) = Inr (kept, opts')"
      by simp
    from Cons.IH[OF this] lv show ?thesis by simp
  next
    case short
    then have g: "1 < length arg \<and> arg ! 0 = CHR ''-''" by (simp add: dashed_def)
    have step: "scan_tokens (arg # rest) opts =
        (case scan_short (tl arg) opts of
           Inl e \<Rightarrow> Inl e
         | Inr opts1 \<Rightarrow> scan_tokens rest opts1)" for rest
      using short(1-4) g by simp
    from Cons.prems have "scan_tokens (arg # pre @ post) opts = Inr (kept, opts')"
      by (simp only: append_Cons)
    then obtain opts1 where s: "scan_short (tl arg) opts = Inr opts1"
      and r: "scan_tokens (pre @ post) opts1 = Inr (kept, opts')"
      unfolding step by (auto split: sum.splits)
    from Cons.IH[OF r] s show ?thesis by (simp add: step del: scan_tokens.simps)
  qed
qed

section \<open>The end-of-options marker\<close>

text \<open>
  C6. When the scan reaches a \<open>--\<close> token (the tokens \<open>pre\<close> before it hold no \<open>--\<close>
  and are scanned without an error, giving \<open>opts\<close>), the marker itself is dropped and
  every token after it is appended to the expressions as it is, whatever it looks like;
  the flags are those of \<open>pre\<close>. In particular \<open>["--", "-h", "foo"]\<close> gives the
  expressions \<open>["-h", "foo"]\<close> and no help flag.
\<close>

theorem double_dash_ends_options:
  assumes "''--'' \<notin> set pre" and "parse_args pre = Inr opts"
  shows "parse_args (pre @ ''--'' # post) = Inr (opts\<lparr>expressions := expressions opts @ post\<rparr>)
       \<and> parse_args [''--'', ''-h'', ''foo''] =
           Inr \<lparr>help = False, version = False, expressions = [''-h'', ''foo'']\<rparr>"
proof
  show "parse_args (pre @ ''--'' # post) = Inr (opts\<lparr>expressions := expressions opts @ post\<rparr>)"
    using assms
    by (auto simp: parse_args_tokens scan_tokens_append split: sum.splits prod.splits)
  show "parse_args [''--'', ''-h'', ''foo''] =
           Inr \<lparr>help = False, version = False, expressions = [''-h'', ''foo'']\<rparr>"
    by (simp add: parse_args_tokens ProgramOptions_default_def)
qed

theorem double_dash_ends_options_witness:
  "''--'' \<notin> set [''-v'', ''a''] \<and>
   parse_args [''-v'', ''a''] = Inr \<lparr>help = False, version = True, expressions = [''a'']\<rparr> \<and>
   parse_args ([''-v'', ''a''] @ ''--'' # [''-h'', ''--'', ''b'']) =
     Inr \<lparr>help = False, version = True, expressions = [''a'', ''-h'', ''--'', ''b'']\<rparr>"
  using double_dash_ends_options [of "[''-v'', ''a'']"
      "\<lparr>help = False, version = True, expressions = [''a'']\<rparr>" "[''-h'', ''--'', ''b'']"]
  by (simp add: parse_args_tokens ProgramOptions_default_def)

section \<open>An empty argument vector\<close>

text \<open>
  C9. With \<open>argc < 1\<close> the constructor throws \<open>runtime_error("Really?")\<close> whatever
  \<open>argv\<close> holds, so before any scanning; \<open>main\<close> catches it and writes to standard
  error, and nowhere else, the line \<open>rq: Really?\<close>, an empty line and the three lines
  of the usage text, each ended by a newline; it evaluates nothing and returns
  \<open>EXIT_FAILURE\<close>, which is not zero.
\<close>

theorem empty_argv_rejected:
  "argc < 1 \<Longrightarrow>
   ProgramOptions_ctor argc argv = Inl (runtime_error ''Really?'') \<and>
   main env argc argv =
     (EXIT_FAILURE,
      [Cerr (''rq: Really?'' @ [CHR 0x0A, CHR 0x0A]),
       Cerr (''Usage: rq [options] [--] [EXPRESSION...]'' @ [CHR 0x0A] @
             ''  -v              print the version number'' @ [CHR 0x0A] @
             ''  -h              show this message'' @ [CHR 0x0A])]) \<and>
   EXIT_FAILURE \<noteq> 0"
  by (simp add: ProgramOptions_ctor_def main_def print_usage_def endl_def EXIT_FAILURE_def)

theorem empty_argv_rejected_witness:
  "(0::int) < 1 \<and>
   ProgramOptions_ctor 0 [] = Inl (runtime_error ''Really?'') \<and>
   main (fake_env []) 0 [] =
     (EXIT_FAILURE,
      [Cerr (''rq: Really?'' @ [CHR 0x0A, CHR 0x0A]),
       Cerr (''Usage: rq [options] [--] [EXPRESSION...]'' @ [CHR 0x0A] @
             ''  -v              print the version number'' @ [CHR 0x0A] @
             ''  -h              show this message'' @ [CHR 0x0A])]) \<and>
   EXIT_FAILURE \<noteq> 0"
  using empty_argv_rejected [of 0 "[]" "fake_env []"] by simp

section \<open>Empty tokens\<close>

text \<open>
  C1, as stated, fails. An empty token sets no flag and raises no error, but the scan
  only moves the iterator past it (\<^verbatim>\<open>++it\<close>) and does not erase it, so it is still in
  the vector when \<^verbatim>\<open>expressions = args\<close> runs: for the arguments \<open>["", "foo"]\<close> the
  expressions are \<open>["", "foo"]\<close>.
\<close>

theorem empty_token_counterexample:
  "parse_args ['''', ''foo''] = Inr \<lparr>help = False, version = False, expressions = ['''', ''foo'']\<rparr>"
  by (simp add: parse_args_tokens ProgramOptions_default_def)

text \<open>
  C1, amended. For every argument sequence, putting an empty token anywhere into it
  changes neither the flags nor the error, if there is one; the token stays in the
  vector, so the expressions are those of the sequence without it with one empty entry
  inserted.
\<close>

theorem empty_token_stays:
  "(parse_args (pre @ post) = Inl e \<longrightarrow> parse_args (pre @ [] # post) = Inl e) \<and>
   (parse_args (pre @ post) = Inr opts \<longrightarrow>
      (\<exists>k\<le>length (expressions opts).
         parse_args (pre @ [] # post) =
           Inr (opts\<lparr>expressions := take k (expressions opts) @ [] # drop k (expressions opts)\<rparr>)))"
proof (intro conjI impI)
  assume "parse_args (pre @ post) = Inl e"
  then have "scan_tokens (pre @ post) ProgramOptions_default = Inl e"
    by (auto simp: parse_args_tokens split: sum.splits prod.splits)
  from scan_tokens_empty_error[OF this]
  show "parse_args (pre @ [] # post) = Inl e"
    by (simp add: parse_args_tokens)
next
  assume "parse_args (pre @ post) = Inr opts"
  then obtain kept opts1 where s: "scan_tokens (pre @ post) ProgramOptions_default = Inr (kept, opts1)"
    and o: "opts = opts1\<lparr>expressions := kept\<rparr>"
    by (auto simp: parse_args_tokens split: sum.splits prod.splits)
  from scan_tokens_empty_kept[OF s] obtain k where k: "k \<le> length kept"
    and e: "scan_tokens (pre @ [] # post) ProgramOptions_default =
              Inr (take k kept @ [] # drop k kept, opts1)"
    by blast
  have "parse_args (pre @ [] # post) =
          Inr (opts\<lparr>expressions := take k (expressions opts) @ [] # drop k (expressions opts)\<rparr>)"
    using e o by (simp add: parse_args_tokens)
  moreover have "k \<le> length (expressions opts)" using k o by simp
  ultimately show "\<exists>k\<le>length (expressions opts).
         parse_args (pre @ [] # post) =
           Inr (opts\<lparr>expressions := take k (expressions opts) @ [] # drop k (expressions opts)\<rparr>)"
    by blast
qed

theorem empty_token_stays_witness:
  "parse_args ([''-v''] @ [''foo'']) = Inr \<lparr>help = False, version = True, expressions = [''foo'']\<rparr> \<and>
   parse_args ([''-v''] @ [] # [''foo'']) =
     Inr \<lparr>help = False, version = True, expressions = ['''', ''foo'']\<rparr> \<and>
   parse_args ([''-x''] @ [''foo'']) = Inl (runtime_error ''invalid option -x'') \<and>
   parse_args ([''-x''] @ [] # [''foo'']) = Inl (runtime_error ''invalid option -x'')"
  using empty_token_stays [of "[''-v'']" "[''foo'']" "runtime_error ''''"
      "\<lparr>help = False, version = True, expressions = [''foo'']\<rparr>"]
    empty_token_stays [of "[''-x'']" "[''foo'']" "runtime_error ''invalid option -x''"
      "\<lparr>help = False, version = False, expressions = []\<rparr>"]
  by (simp add: parse_args_tokens ProgramOptions_default_def)

section \<open>Short option tokens and unknown long options\<close>

text \<open>
  C4. Let \<open>arg\<close> be a token longer than one character that starts with \<open>-\<close> and is
  none of \<open>--\<close>, \<open>--help\<close>, \<open>--version\<close>. The iteration of the loop that finds it
  under the iterator goes through the characters after the first \<open>-\<close> in order: the
  first one that is neither \<open>h\<close> nor \<open>v\<close> makes it throw the error naming that
  character; with none, the token is erased, \<open>h\<close> has set help and \<open>v\<close> has set
  version. The same holds for a whole parse in which the scan reaches the token (no
  \<open>--\<close> and no error before it). In particular a token whose second character is
  \<open>-\<close>, such as \<open>--foo\<close>, fails with the error naming \<open>-\<close>.
\<close>

theorem dashed_token_scanned:
  assumes "dashed arg" and "arg \<noteq> ''--''" and "arg \<noteq> ''--help''" and "arg \<noteq> ''--version''"
  shows "(args ! it = arg \<longrightarrow>
            scan_body args it opts =
              (case find invalid_char (tl arg) of
                 Some c \<Rightarrow> Throw (runtime_error (''invalid option -'' @ [c]))
               | None \<Rightarrow> Continue (erase args it) it
                          (opts\<lparr>help := help opts \<or> CHR ''h'' \<in> set (tl arg),
                                version := version opts \<or> CHR ''v'' \<in> set (tl arg)\<rparr>))) \<and>
         (''--'' \<notin> set pre \<and> parse_args pre = Inr before \<longrightarrow>
            (case find invalid_char (tl arg) of
               Some c \<Rightarrow> parse_args (pre @ arg # post) =
                           Inl (runtime_error (''invalid option -'' @ [c]))
             | None \<Rightarrow> (\<forall>result. parse_args (pre @ arg # post) = Inr result \<longrightarrow>
                           (CHR ''h'' \<in> set (tl arg) \<longrightarrow> help result) \<and>
                           (CHR ''v'' \<in> set (tl arg) \<longrightarrow> version result)))) \<and>
         (arg ! 1 = CHR ''-'' \<longrightarrow>
            (args ! it = arg \<longrightarrow>
               scan_body args it opts = Throw (runtime_error ''invalid option --'')) \<and>
            (''--'' \<notin> set pre \<and> parse_args pre = Inr before \<longrightarrow>
               parse_args (pre @ arg # post) = Inl (runtime_error ''invalid option --'')))"
proof (intro conjI impI)
  assume "args ! it = arg"
  with assms show "scan_body args it opts =
              (case find invalid_char (tl arg) of
                 Some c \<Rightarrow> Throw (runtime_error (''invalid option -'' @ [c]))
               | None \<Rightarrow> Continue (erase args it) it
                          (opts\<lparr>help := help opts \<or> CHR ''h'' \<in> set (tl arg),
                                version := version opts \<or> CHR ''v'' \<in> set (tl arg)\<rparr>))"
    by (rule scan_body_dashed)
next
  assume "''--'' \<notin> set pre \<and> parse_args pre = Inr before"
  then show "case find invalid_char (tl arg) of
          None \<Rightarrow> \<forall>result. parse_args (pre @ arg # post) = Inr result \<longrightarrow>
                     (CHR ''h'' \<in> set (tl arg) \<longrightarrow> help result) \<and>
                     (CHR ''v'' \<in> set (tl arg) \<longrightarrow> version result)
        | Some c \<Rightarrow> parse_args (pre @ arg # post) =
                     Inl (runtime_error (''invalid option -'' @ [c]))"
    using parse_args_dashed[OF assms] by blast
next
  assume l: "arg ! 1 = CHR ''-''" and a: "args ! it = arg"
  from long_option_invalid[OF assms(1) l] scan_body_dashed[OF assms a]
  show "scan_body args it opts = Throw (runtime_error ''invalid option --'')"
    by simp
next
  assume l: "arg ! 1 = CHR ''-''" and "''--'' \<notin> set pre \<and> parse_args pre = Inr before"
  then have "''--'' \<notin> set pre" "parse_args pre = Inr before" by simp_all
  from parse_args_dashed[OF assms this, of post] long_option_invalid[OF assms(1) l]
  show "parse_args (pre @ arg # post) = Inl (runtime_error ''invalid option --'')"
    by simp
qed

theorem dashed_token_scanned_witness:
  "dashed ''--foo'' \<and> [''a'', ''--foo''] ! 1 = ''--foo'' \<and> ''--foo'' ! 1 = CHR ''-'' \<and>
   ''--'' \<notin> set [''a''] \<and>
   parse_args [''a''] = Inr \<lparr>help = False, version = False, expressions = [''a'']\<rparr> \<and>
   scan_body [''a'', ''--foo''] 1 ProgramOptions_default = Throw (runtime_error ''invalid option --'') \<and>
   parse_args ([''a''] @ ''--foo'' # [''b'']) = Inl (runtime_error ''invalid option --'') \<and>
   dashed ''-hv'' \<and>
   scan_body [''a'', ''-hv''] 1 ProgramOptions_default =
     Continue [''a''] 1 \<lparr>help = True, version = True, expressions = []\<rparr> \<and>
   parse_args ([''a''] @ ''-hv'' # [''b'']) =
     Inr \<lparr>help = True, version = True, expressions = [''a'', ''b'']\<rparr>"
  using dashed_token_scanned [of "''--foo''" "[''a'', ''--foo'']" 1 ProgramOptions_default "[''a'']"
      "\<lparr>help = False, version = False, expressions = [''a'']\<rparr>" "[''b'']"]
    dashed_token_scanned [of "''-hv''" "[''a'', ''-hv'']" 1 ProgramOptions_default "[''a'']"
      "\<lparr>help = False, version = False, expressions = [''a'']\<rparr>" "[''b'']"]
  by (simp add: dashed_def invalid_char_def erase_def parse_args_tokens ProgramOptions_default_def)

section \<open>Every token is consumed once\<close>

text \<open>
  C7. If every token of the argument sequence is a well-formed flag or a positional
  token (so \<open>--\<close> does not occur), the parse succeeds; the expressions are exactly the
  positional tokens, in their original order; no token is both a flag and positional,
  and as multisets the tokens are the flags plus the expressions, so none is lost or
  duplicated; every flag token sets help or version, and a flag is set exactly when a
  token sets it. Empty tokens are positional here, so the non-empty tokens are covered.
\<close>

theorem tokens_partitioned:
  assumes "\<forall>arg\<in>set args. well_formed_flag arg \<or> positional arg"
  shows "\<exists>opts. parse_args args = Inr opts \<and>
           expressions opts = filter positional args \<and>
           mset args = mset (filter well_formed_flag args) + mset (expressions opts) \<and>
           (\<forall>arg\<in>set args. well_formed_flag arg \<longrightarrow>
              \<not> positional arg \<and> (sets_help arg \<or> sets_version arg)) \<and>
           help opts = (\<exists>arg\<in>set args. sets_help arg) \<and>
           version opts = (\<exists>arg\<in>set args. sets_version arg)"
proof -
  from scan_tokens_well_formed[OF assms, of ProgramOptions_default]
  obtain opts1 where s: "scan_tokens args ProgramOptions_default = Inr (filter positional args, opts1)" ..
  define opts where "opts = opts1\<lparr>expressions := filter positional args\<rparr>"
  have p: "parse_args args = Inr opts"
    by (simp add: parse_args_tokens s opts_def)
  have e: "expressions opts = filter positional args"
    by (simp add: opts_def)
  have nd: "''--'' \<notin> set args"
    using assms by (auto simp: well_formed_flag_def positional_def dashed_def invalid_char_def)
  then have sc: "scanned args = args"
    by (auto simp: scanned_def takeWhile_eq_all_conv)
  have fl: "help opts = (\<exists>arg\<in>set args. sets_help arg)"
    "version opts = (\<exists>arg\<in>set args. sets_version arg)"
    using scan_tokens_flags[OF s] by (simp_all add: sc opts_def ProgramOptions_default_def)
  have "filter well_formed_flag args = filter (\<lambda>arg. \<not> positional arg) args"
    using assms by (intro filter_cong) (auto dest: well_formed_not_positional)
  then have m: "mset args = mset (filter well_formed_flag args) + mset (expressions opts)"
    by (simp add: e)
  have w: "\<forall>arg\<in>set args. well_formed_flag arg \<longrightarrow>
              \<not> positional arg \<and> (sets_help arg \<or> sets_version arg)"
    by (auto dest: well_formed_not_positional well_formed_sets)
  from p e m w fl show ?thesis by blast
qed

theorem tokens_partitioned_witness:
  "list_all (\<lambda>arg. well_formed_flag arg \<or> positional arg)
     [''-hv'', ''a'', '''', ''--version'', ''-'', ''b''] \<and>
   parse_args [''-hv'', ''a'', '''', ''--version'', ''-'', ''b''] =
     Inr \<lparr>help = True, version = True, expressions = [''a'', '''', ''-'', ''b'']\<rparr> \<and>
   filter well_formed_flag [''-hv'', ''a'', '''', ''--version'', ''-'', ''b''] =
     [''-hv'', ''--version'']"
  using tokens_partitioned [of "[''-hv'', ''a'', '''', ''--version'', ''-'', ''b'']"]
  by (simp add: well_formed_flag_def positional_def dashed_def invalid_char_def
        parse_args_tokens ProgramOptions_default_def)

section \<open>The flags only go up\<close>

text \<open>
  C10. An iteration of the scan loop that does not throw leaves each of help and
  version as it was or sets it to true; and after a successful parse help (version) is
  true exactly when one of the tokens the scan looked at, those before the first \<open>--\<close>,
  sets it.
\<close>

theorem flags_monotone:
  "(scan_body args it opts = Continue args' it' opts' \<or>
    scan_body args it opts = Break args' it' opts' \<longrightarrow>
      (help opts' = help opts \<or> help opts') \<and>
      (version opts' = version opts \<or> version opts')) \<and>
   (parse_args args0 = Inr result \<longrightarrow>
      help result = (\<exists>arg\<in>set (scanned args0). sets_help arg) \<and>
      version result = (\<exists>arg\<in>set (scanned args0). sets_version arg))"
proof (intro conjI impI)
  assume "scan_body args it opts = Continue args' it' opts' \<or>
    scan_body args it opts = Break args' it' opts'"
  from scan_body_flags[OF this]
  show "help opts' = help opts \<or> help opts'" "version opts' = version opts \<or> version opts'"
    by auto
next
  assume p: "parse_args args0 = Inr result"
  then obtain kept opts1 where s: "scan_tokens args0 ProgramOptions_default = Inr (kept, opts1)"
    and r: "result = opts1\<lparr>expressions := kept\<rparr>"
    by (auto simp: parse_args_tokens split: sum.splits prod.splits)
  from scan_tokens_flags[OF s] r
  show "help result = (\<exists>arg\<in>set (scanned args0). sets_help arg)"
    "version result = (\<exists>arg\<in>set (scanned args0). sets_version arg)"
    by (simp_all add: ProgramOptions_default_def)
qed

theorem flags_monotone_witness:
  "scan_body [''a'', ''-v''] 1 \<lparr>help = True, version = False, expressions = []\<rparr> =
     Continue [''a''] 1 \<lparr>help = True, version = True, expressions = []\<rparr> \<and>
   parse_args [''-v'', ''a'', ''--'', ''-h''] =
     Inr \<lparr>help = False, version = True, expressions = [''a'', ''-h'']\<rparr> \<and>
   \<not> (\<exists>arg\<in>set (scanned [''-v'', ''a'', ''--'', ''-h'']). sets_help arg) \<and>
   (\<exists>arg\<in>set (scanned [''-v'', ''a'', ''--'', ''-h'']). sets_version arg)"
  using flags_monotone [of "[''a'', ''-v'']" 1 "\<lparr>help = True, version = False, expressions = []\<rparr>"
      "[''a'']" 1 "\<lparr>help = True, version = True, expressions = []\<rparr>"
      "[''-v'', ''a'', ''--'', ''-h'']"
      "\<lparr>help = False, version = True, expressions = [''a'', ''-h'']\<rparr>"]
  by (simp add: scan_body_def erase_def parse_args_tokens ProgramOptions_default_def)

section \<open>The trace of the pipeline\<close>

lemma evals_append: "evals (xs @ ys) = evals xs @ evals ys"
  by (induction xs rule: evals.induct) simp_all

lemma diagnostics_append: "diagnostics (xs @ ys) = diagnostics xs @ diagnostics ys"
  by (induction xs rule: diagnostics.induct) simp_all

lemma evals_expr_events: "evals (concat (map (expr_events env) exprs)) = map (wrap env) exprs"
  by (induction exprs) (simp_all add: expr_events_def)

lemma diagnostics_expr_events: "diagnostics (concat (map (expr_events env) exprs)) = []"
  by (induction exprs) (simp_all add: expr_events_def)

lemma printing_not_expr_events:
  "Cout (''printing item'' @ endl) \<notin> set (concat (map (expr_events env) exprs))"
  by (induction exprs) (simp_all add: expr_events_def)

lemma run_expressions_ok:
  "first_failure env exprs rb = None \<Longrightarrow>
   run_expressions env exprs rb =
     (True, rb_after env exprs rb, concat (map (expr_events env) exprs))"
proof (induction exprs arbitrary: rb)
  case Nil
  show ?case by simp
next
  case (Cons expr rest)
  obtain ok rb' where e: "rb_eval env (wrap env expr) rb = (ok, rb')"
    by (cases "rb_eval env (wrap env expr) rb")
  with Cons.prems have ok: "ok" and f: "first_failure env rest rb' = None"
    by (auto split: bool.splits)
  from Cons.IH[OF f] e ok show ?case
    by (simp add: expr_events_def Let_def)
qed

lemma run_expressions_fail:
  "first_failure env exprs rb = Some i \<Longrightarrow>
   i < length exprs \<and>
   run_expressions env exprs rb =
     (False,
      snd (rb_eval env (wrap env (exprs ! i)) (rb_after env (take i exprs) rb)),
      concat (map (expr_events env) (take i exprs)) @ expr_events env (exprs ! i) @
      [Cerr (''rq: expression '' @ exprs ! i @ '' failed to run:'' @ endl),
       PrintError (rb_print_error env
         (snd (rb_eval env (wrap env (exprs ! i)) (rb_after env (take i exprs) rb))))])"
proof (induction exprs arbitrary: rb i)
  case Nil
  then show ?case by simp
next
  case (Cons expr rest)
  obtain ok rb' where e: "rb_eval env (wrap env expr) rb = (ok, rb')"
    by (cases "rb_eval env (wrap env expr) rb")
  show ?case
  proof (cases ok)
    case False
    with Cons.prems e have "i = 0" by simp
    with e False show ?thesis by (simp add: expr_events_def Let_def)
  next
    case True
    with Cons.prems e obtain j where i: "i = Suc j" and f: "first_failure env rest rb' = Some j"
      by auto
    from Cons.IH[OF f] e True i show ?thesis
      by (simp add: expr_events_def Let_def)
  qed
qed

lemma main_options:
  "ProgramOptions_ctor argc argv = Inr opts \<Longrightarrow> \<not> help opts \<Longrightarrow> \<not> version opts \<Longrightarrow>
   main env argc argv =
     (let tr0 = [Cout (''reading from stdin'' @ endl), Eval read_stmt];
          (ok0, rb0) = rb_eval env read_stmt (rb_new env)
      in if \<not> ok0 then
           (EXIT_FAILURE,
            tr0 @ [Cerr (''rq: read from stdin failed:'' @ endl),
                   PrintError (rb_print_error env rb0)])
         else
           (let tr1 = tr0 @ [Cout (''running '' @ to_decimal (length (expressions opts))
                                   @ '' expressions'' @ endl)]
            in case run_expressions env (expressions opts) rb0 of
                 (False, rb1, tr2) \<Rightarrow> (EXIT_FAILURE, tr1 @ tr2)
               | (True, rb1, tr2) \<Rightarrow>
                   (let tr3 = tr1 @ tr2 @ [Cout (''printing item'' @ endl), Eval print_stmt];
                        (ok2, rb2) = rb_eval env print_stmt rb1
                    in if \<not> ok2 then
                         (EXIT_FAILURE,
                          tr3 @ [Cerr (''rq: printing item failed'' @ endl),
                                 PrintError (rb_print_error env rb2)])
                       else (EXIT_SUCCESS, tr3))))"
  by (simp only: main_def sum.case if_False)

lemma main_read_failure:
  assumes "ProgramOptions_ctor argc argv = Inr opts" "\<not> help opts" "\<not> version opts"
    and "\<not> fst (rb_eval env read_stmt (rb_new env))"
  shows "main env argc argv =
     (EXIT_FAILURE,
      [Cout (''reading from stdin'' @ endl), Eval read_stmt,
       Cerr (''rq: read from stdin failed:'' @ endl),
       PrintError (rb_print_error env (snd (rb_eval env read_stmt (rb_new env))))])"
proof -
  obtain ok0 rb0 where e: "rb_eval env read_stmt (rb_new env) = (ok0, rb0)"
    by (cases "rb_eval env read_stmt (rb_new env)")
  with assms(4) have "\<not> ok0" by simp
  with e show ?thesis
    by (simp add: main_options[OF assms(1-3)] Let_def)
qed

lemma main_expression_failure:
  assumes "ProgramOptions_ctor argc argv = Inr opts" "\<not> help opts" "\<not> version opts"
    and "rb_eval env read_stmt (rb_new env) = (True, rb0)"
    and "first_failure env (expressions opts) rb0 = Some i"
  shows "main env argc argv =
     (EXIT_FAILURE,
      [Cout (''reading from stdin'' @ endl), Eval read_stmt,
       Cout (''running '' @ to_decimal (length (expressions opts)) @ '' expressions'' @ endl)] @
      concat (map (expr_events env) (take i (expressions opts))) @
      expr_events env (expressions opts ! i) @
      [Cerr (''rq: expression '' @ expressions opts ! i @ '' failed to run:'' @ endl),
       PrintError (rb_print_error env
         (snd (rb_eval env (wrap env (expressions opts ! i))
                (rb_after env (take i (expressions opts)) rb0))))])"
  using run_expressions_fail[OF assms(5)] assms(4)
  by (simp add: main_options[OF assms(1-3)] Let_def)

lemma main_success:
  assumes "ProgramOptions_ctor argc argv = Inr opts" "\<not> help opts" "\<not> version opts"
    and "rb_eval env read_stmt (rb_new env) = (True, rb0)"
    and "first_failure env (expressions opts) rb0 = None"
  shows "main env argc argv =
     (let tr = [Cout (''reading from stdin'' @ endl), Eval read_stmt,
                Cout (''running '' @ to_decimal (length (expressions opts)) @ '' expressions'' @ endl)] @
               concat (map (expr_events env) (expressions opts)) @
               [Cout (''printing item'' @ endl), Eval print_stmt];
          (ok2, rb2) = rb_eval env print_stmt (rb_after env (expressions opts) rb0)
      in if ok2 then (EXIT_SUCCESS, tr)
         else (EXIT_FAILURE, tr @ [Cerr (''rq: printing item failed'' @ endl),
                                   PrintError (rb_print_error env rb2)]))"
proof -
  obtain ok2 rb2 where e: "rb_eval env print_stmt (rb_after env (expressions opts) rb0) = (ok2, rb2)"
    by (cases "rb_eval env print_stmt (rb_after env (expressions opts) rb0)")
  show ?thesis
    using run_expressions_ok[OF assms(5)] assms(4) e
    by (simp add: main_options[OF assms(1-3)] Let_def)
qed

section \<open>Standard output on a successful run\<close>

text \<open>
  C2, as stated, fails. \<^verbatim>\<open>main\<close> itself writes progress lines to standard output
  before the document is serialized: with no expression at all and an interpreter that
  never fails, \<open>reading from stdin\<close>, \<open>running 0 expressions\<close> and \<open>printing item\<close>
  are written to \<^verbatim>\<open>std::cout\<close> before and between the two evaluations.
\<close>

theorem stdout_counterexample:
  "main (fake_env []) 1 [''rq''] =
     (EXIT_SUCCESS,
      [Cout (''reading from stdin'' @ endl), Eval read_stmt,
       Cout (''running 0 expressions'' @ endl),
       Cout (''printing item'' @ endl), Eval print_stmt]) \<and>
   couts (snd (main (fake_env []) 1 [''rq''])) =
     [''reading from stdin'' @ endl, ''running 0 expressions'' @ endl,
      ''printing item'' @ endl]"
  by (simp add: ProgramOptions_ctor_def parse_args_tokens ProgramOptions_default_def
        fake_env_def read_stmt_def print_stmt_def expr_events_def to_decimal.simps Let_def
        main_def EXIT_SUCCESS_def EXIT_FAILURE_def)

text \<open>
  C2, amended. On a successful run (the arguments parse and ask for neither help nor
  version, the input statement, every expression and the output statement succeed)
  the statement that prints the document as JSON with \<open>indent_width: 2\<close> through
  \<open>puts\<close> is evaluated exactly once, as the last action, after every expression; before
  it \<^verbatim>\<open>main\<close> writes to standard output the lines \<open>reading from stdin\<close>,
  \<open>running N expressions\<close>, one line \<open>----> \<close> with the wrapped statement before each
  evaluation, and \<open>printing item\<close>; the exit status is \<open>EXIT_SUCCESS\<close>.
\<close>

theorem successful_run_trace:
  assumes "ProgramOptions_ctor argc argv = Inr opts" and "\<not> help opts" and "\<not> version opts"
    and "rb_eval env read_stmt (rb_new env) = (True, rb0)"
    and "first_failure env (expressions opts) rb0 = None"
    and "fst (rb_eval env print_stmt (rb_after env (expressions opts) rb0))"
  shows "main env argc argv =
     (EXIT_SUCCESS,
      [Cout (''reading from stdin'' @ endl), Eval read_stmt,
       Cout (''running '' @ to_decimal (length (expressions opts)) @ '' expressions'' @ endl)] @
      concat (map (expr_events env) (expressions opts)) @
      [Cout (''printing item'' @ endl), Eval print_stmt])"
proof -
  obtain ok2 rb2 where e: "rb_eval env print_stmt (rb_after env (expressions opts) rb0) = (ok2, rb2)"
    by (cases "rb_eval env print_stmt (rb_after env (expressions opts) rb0)")
  with assms(6) have "ok2" by simp
  with e show ?thesis
    by (simp add: main_success[OF assms(1-5)] Let_def)
qed

theorem successful_run_trace_witness:
  "ProgramOptions_ctor 3 [''rq'', ''a'', ''b''] =
     Inr \<lparr>help = False, version = False, expressions = [''a'', ''b'']\<rparr> \<and>
   first_failure (fake_env []) [''a'', ''b''] () = None \<and>
   main (fake_env []) 3 [''rq'', ''a'', ''b''] =
     (EXIT_SUCCESS,
      [Cout (''reading from stdin'' @ endl), Eval read_stmt,
       Cout (''running 2 expressions'' @ endl),
       Cout (''----> item = a'' @ endl), Eval ''item = a'',
       Cout (''----> item = b'' @ endl), Eval ''item = b'',
       Cout (''printing item'' @ endl), Eval print_stmt])"
  using successful_run_trace [of 3 "[''rq'', ''a'', ''b'']"
      "\<lparr>help = False, version = False, expressions = [''a'', ''b'']\<rparr>" "fake_env []" "()"]
  by (simp add: ProgramOptions_ctor_def parse_args_tokens ProgramOptions_default_def
        fake_env_def read_stmt_def print_stmt_def expr_events_def to_decimal.simps)

section \<open>The diagnostic of a failing expression\<close>

text \<open>
  C3, as stated, fails. The diagnostic does not carry the index: the same expression
  failing at index 1 and at index 0 gives the same output on standard error.
\<close>

theorem diagnostic_counterexample:
  "first_failure (fake_env [''item = bad'']) [''ok'', ''bad''] () = Some 1 \<and>
   diagnostics (snd (main (fake_env [''item = bad'']) 3 [''rq'', ''ok'', ''bad''])) =
     [Cerr (''rq: expression bad failed to run:'' @ endl), PrintError ''error''] \<and>
   first_failure (fake_env [''item = bad'']) [''bad''] () = Some 0 \<and>
   diagnostics (snd (main (fake_env [''item = bad'']) 2 [''rq'', ''bad''])) =
     [Cerr (''rq: expression bad failed to run:'' @ endl), PrintError ''error'']"
  by (simp add: ProgramOptions_ctor_def parse_args_tokens ProgramOptions_default_def
        fake_env_def read_stmt_def print_stmt_def expr_events_def to_decimal.simps Let_def
        main_def EXIT_SUCCESS_def EXIT_FAILURE_def)

text \<open>
  C3, amended. When the expression at position \<open>i\<close> is the first to fail, what is
  reported is the line \<open>rq: expression <source text> failed to run:\<close> on standard
  error, with the source text of that expression, followed by the error the interpreter
  prints in the state the failed evaluation left; the index is not part of it.
\<close>

theorem failure_diagnostic:
  assumes "ProgramOptions_ctor argc argv = Inr opts" and "\<not> help opts" and "\<not> version opts"
    and "rb_eval env read_stmt (rb_new env) = (True, rb0)"
    and "first_failure env (expressions opts) rb0 = Some i"
  shows "diagnostics (snd (main env argc argv)) =
     [Cerr (''rq: expression '' @ expressions opts ! i @ '' failed to run:'' @ endl),
      PrintError (rb_print_error env
        (snd (rb_eval env (wrap env (expressions opts ! i))
               (rb_after env (take i (expressions opts)) rb0))))]"
  by (simp add: main_expression_failure[OF assms] diagnostics_append diagnostics_expr_events
        expr_events_def)

theorem failure_diagnostic_witness:
  "ProgramOptions_ctor 3 [''rq'', ''ok'', ''bad''] =
     Inr \<lparr>help = False, version = False, expressions = [''ok'', ''bad'']\<rparr> \<and>
   first_failure (fake_env [''item = bad'']) [''ok'', ''bad''] () = Some 1 \<and>
   diagnostics (snd (main (fake_env [''item = bad'']) 3 [''rq'', ''ok'', ''bad''])) =
     [Cerr (''rq: expression bad failed to run:'' @ endl), PrintError ''error'']"
  using failure_diagnostic [of 3 "[''rq'', ''ok'', ''bad'']"
      "\<lparr>help = False, version = False, expressions = [''ok'', ''bad'']\<rparr>"
      "fake_env [''item = bad'']" "()" 1]
  by (simp add: ProgramOptions_ctor_def parse_args_tokens ProgramOptions_default_def
        fake_env_def read_stmt_def)

section \<open>A failure ends the run\<close>

text \<open>
  C5. In a run that asks for neither help nor version: if the input statement fails,
  it is the only statement evaluated and the exit status is \<open>EXIT_FAILURE\<close>; if
  expression \<open>i\<close> is the first to fail, the statements evaluated are the input
  statement and the wrapped expressions \<open>0..i\<close> and nothing else, so no later
  expression and no output statement, the line \<open>printing item\<close> that precedes the
  output statement is never written, and the exit status is \<open>EXIT_FAILURE\<close>, which is
  not zero.
\<close>

theorem failure_aborts:
  assumes "ProgramOptions_ctor argc argv = Inr opts" and "\<not> help opts" and "\<not> version opts"
  shows "(\<not> fst (rb_eval env read_stmt (rb_new env)) \<longrightarrow>
            fst (main env argc argv) = EXIT_FAILURE \<and>
            evals (snd (main env argc argv)) = [read_stmt]) \<and>
         (rb_eval env read_stmt (rb_new env) = (True, rb0) \<and>
          first_failure env (expressions opts) rb0 = Some i \<longrightarrow>
            fst (main env argc argv) = EXIT_FAILURE \<and>
            evals (snd (main env argc argv)) =
              read_stmt # map (wrap env) (take (Suc i) (expressions opts)) \<and>
            Cout (''printing item'' @ endl) \<notin> set (snd (main env argc argv))) \<and>
         EXIT_FAILURE \<noteq> 0"
proof (intro conjI impI)
  assume "\<not> fst (rb_eval env read_stmt (rb_new env))"
  from main_read_failure[OF assms this]
  show "fst (main env argc argv) = EXIT_FAILURE" "evals (snd (main env argc argv)) = [read_stmt]"
    by simp_all
next
  assume a: "rb_eval env read_stmt (rb_new env) = (True, rb0) \<and>
          first_failure env (expressions opts) rb0 = Some i"
  have i: "i < length (expressions opts)"
    by (rule conjunct1[OF run_expressions_fail[OF conjunct2[OF a]]])
  note m = main_expression_failure[OF assms conjunct1[OF a] conjunct2[OF a]]
  show "fst (main env argc argv) = EXIT_FAILURE" by (simp add: m)
  show "evals (snd (main env argc argv)) =
              read_stmt # map (wrap env) (take (Suc i) (expressions opts))"
  proof -
    have "evals (snd (main env argc argv)) =
        read_stmt # map (wrap env) (take i (expressions opts)) @ [wrap env (expressions opts ! i)]"
      by (simp add: m evals_append evals_expr_events expr_events_def)
    moreover have "take (Suc i) (expressions opts) = take i (expressions opts) @ [expressions opts ! i]"
      using i by (rule take_Suc_conv_app_nth)
    ultimately show ?thesis by simp
  qed
  show "Cout (''printing item'' @ endl) \<notin> set (snd (main env argc argv))"
    using printing_not_expr_events[of env "take i (expressions opts)"]
    by (simp add: m expr_events_def)
next
  show "EXIT_FAILURE \<noteq> 0" by (simp add: EXIT_FAILURE_def)
qed

theorem failure_aborts_witness:
  "ProgramOptions_ctor 4 [''rq'', ''ok'', ''bad'', ''later''] =
     Inr \<lparr>help = False, version = False, expressions = [''ok'', ''bad'', ''later'']\<rparr> \<and>
   \<not> fst (rb_eval (fake_env [read_stmt]) read_stmt (rb_new (fake_env [read_stmt]))) \<and>
   fst (main (fake_env [read_stmt]) 4 [''rq'', ''ok'', ''bad'', ''later'']) = EXIT_FAILURE \<and>
   evals (snd (main (fake_env [read_stmt]) 4 [''rq'', ''ok'', ''bad'', ''later''])) = [read_stmt] \<and>
   first_failure (fake_env [''item = bad'']) [''ok'', ''bad'', ''later''] () = Some 1 \<and>
   fst (main (fake_env [''item = bad'']) 4 [''rq'', ''ok'', ''bad'', ''later'']) = EXIT_FAILURE \<and>
   evals (snd (main (fake_env [''item = bad'']) 4 [''rq'', ''ok'', ''bad'', ''later''])) =
     [read_stmt, ''item = ok'', ''item = bad''] \<and>
   Cout (''printing item'' @ endl) \<notin>
     set (snd (main (fake_env [''item = bad'']) 4 [''rq'', ''ok'', ''bad'', ''later'']))"
  using failure_aborts [of 4 "[''rq'', ''ok'', ''bad'', ''later'']"
      "\<lparr>help = False, version = False, expressions = [''ok'', ''bad'', ''later'']\<rparr>"
      "fake_env [read_stmt]" "()" 0]
    failure_aborts [of 4 "[''rq'', ''ok'', ''bad'', ''later'']"
      "\<lparr>help = False, version = False, expressions = [''ok'', ''bad'', ''later'']\<rparr>"
      "fake_env [''item = bad'']" "()" 1]
  by (simp add: ProgramOptions_ctor_def parse_args_tokens ProgramOptions_default_def
        fake_env_def read_stmt_def)

end
